theory Spec2Isabelle
  imports Complex_Main
begin

section \<open>Data model of the sentiment charts\<close>

text \<open>
  \<^verbatim>\<open>interface FormattedDataPoint { date: Date | null; value: number }\<close>.
  A \<open>Date\<close> is represented by its \<open>getTime()\<close>, an integer number of milliseconds;
  the values come from JSON, so they are finite numbers and their comparisons are those
  of the reals.
\<close>

record FormattedDataPoint =
  date :: "int option"
  "value" :: real

datatype error = TypeError

text \<open>
  Reading a JavaScript array: \<open>data[k]\<close> is the element when \<open>0 \<le> k < data.length\<close>
  and \<open>undefined\<close> (here \<open>None\<close>) otherwise.
\<close>

definition at_index :: "'a list \<Rightarrow> int \<Rightarrow> 'a option" where
  "at_index xs k = (if 0 \<le> k \<and> k < int (length xs) then Some (xs ! nat k) else None)"

section \<open>decimateData\<close>

text \<open>
  The inner loop \<^verbatim>\<open>for (let j = bucketStart; j < bucketEnd; j++)\<close> with its two
  accumulators. Reading \<open>.value\<close> of \<open>undefined\<close> throws a \<open>TypeError\<close>.
\<close>

function bucketScan ::
  "FormattedDataPoint list \<Rightarrow> int \<Rightarrow> int \<Rightarrow> FormattedDataPoint \<Rightarrow> real
     \<Rightarrow> error + FormattedDataPoint" where
  "bucketScan data j bucketEnd maxPoint maxValue =
     (if j < bucketEnd then
        (case at_index data j of
           None \<Rightarrow> Inl TypeError
         | Some p \<Rightarrow>
             if value p > maxValue then bucketScan data (j + 1) bucketEnd p (value p)
             else bucketScan data (j + 1) bucketEnd maxPoint maxValue)
      else Inr maxPoint)"
  by pat_completeness auto
termination
  by (relation "measure (\<lambda>(data, j, bucketEnd, maxPoint, maxValue). nat (bucketEnd - j))") auto

text \<open>
  One bucket: \<^verbatim>\<open>let maxPoint = data[bucketStart]; let maxValue = data[bucketStart].value;\<close>
  followed by the scan.
\<close>

definition bucketMax :: "FormattedDataPoint list \<Rightarrow> int \<Rightarrow> int \<Rightarrow> error + FormattedDataPoint" where
  "bucketMax data bucketStart bucketEnd =
     (case at_index data bucketStart of
        None \<Rightarrow> Inl TypeError
      | Some p0 \<Rightarrow> bucketScan data bucketStart bucketEnd p0 (value p0))"

text \<open>
  The bounds of bucket \<open>i\<close>: \<^verbatim>\<open>Math.floor((i * data.length) / maxPoints)\<close> and
  \<^verbatim>\<open>Math.floor(((i + 1) * data.length) / maxPoints)\<close>. The loop runs only for
  \<open>maxPoints \<ge> 3\<close>, where the floor of the quotient is integer division (products
  below \<open>2^53\<close>).
\<close>

definition bucketStart :: "int \<Rightarrow> int \<Rightarrow> int \<Rightarrow> int" where
  "bucketStart len maxPoints i = (i * len) div maxPoints"

definition bucketEnd :: "int \<Rightarrow> int \<Rightarrow> int \<Rightarrow> int" where
  "bucketEnd len maxPoints i = ((i + 1) * len) div maxPoints"

text \<open>
  The outer loop \<^verbatim>\<open>for (let i = 1; i < maxPoints - 1; i++)\<close>; \<open>decimated\<close> is the
  array built so far, whose slots may hold \<open>undefined\<close>.
\<close>

function decimateLoop ::
  "FormattedDataPoint list \<Rightarrow> int \<Rightarrow> int \<Rightarrow> FormattedDataPoint option list
     \<Rightarrow> error + FormattedDataPoint option list" where
  "decimateLoop data maxPoints i decimated =
     (if i < maxPoints - 1 then
        (case bucketMax data (bucketStart (int (length data)) maxPoints i)
                             (bucketEnd (int (length data)) maxPoints i) of
           Inl e \<Rightarrow> Inl e
         | Inr maxPoint \<Rightarrow> decimateLoop data maxPoints (i + 1) (decimated @ [Some maxPoint]))
      else Inr decimated)"
  by pat_completeness auto
termination
  by (relation "measure (\<lambda>(data, maxPoints, i, decimated). nat (maxPoints - 1 - i))") auto

text \<open>
  \<^verbatim>\<open>decimateData(data, maxPoints)\<close>. The unused local \<open>bucketSize\<close> is left out.
  \<open>maxPoints\<close> is an integer, as in every call (50 for the overview, and
  \<^verbatim>\<open>Math.max(100, Math.floor(width / 3))\<close>); the function itself accepts any of them,
  negative ones too. The result is an array whose slots are points or \<open>undefined\<close>; an
  exception is \<open>Inl\<close>.
\<close>

definition decimateData ::
  "FormattedDataPoint list \<Rightarrow> int \<Rightarrow> error + FormattedDataPoint option list" where
  "decimateData data maxPoints =
     (if int (length data) \<le> maxPoints then Inr (map Some data)
      else
        (case decimateLoop data maxPoints 1 [at_index data 0] of
           Inl e \<Rightarrow> Inl e
         | Inr decimated \<Rightarrow> Inr (decimated @ [at_index data (int (length data) - 1)])))"

text \<open>
  The index \<open>k\<close> is the first position of the maximal value among the positions
  \<open>bs, \<dots>, be - 1\<close> of \<open>data\<close>: what the scan of a bucket selects.
\<close>

definition firstMaxIn :: "FormattedDataPoint list \<Rightarrow> int \<Rightarrow> int \<Rightarrow> int \<Rightarrow> bool" where
  "firstMaxIn data bs be k \<longleftrightarrow>
     bs \<le> k \<and> k < be
     \<and> (\<forall>k' \<in> set [bs..be - 1]. value (data ! nat k') \<le> value (data ! nat k))
     \<and> (\<forall>k' \<in> set [bs..k - 1]. value (data ! nat k') < value (data ! nat k))"


section \<open>Nearest timestamp under the pointer (mousemove handler)\<close>





text \<open>
  The reference of the specification: a linear scan that selects the entry minimizing
  \<open>abs(candidate - pointerTimestamp)\<close>, ties resolved toward the lower index (a later
  candidate replaces the best one only when it is strictly closer).
\<close>

definition linearScanNearest :: "int list \<Rightarrow> int \<Rightarrow> int option" where
  "linearScanNearest ts x =
     (case ts of
        [] \<Rightarrow> None
      | t # rest \<Rightarrow> Some (foldl (\<lambda>best c. if \<bar>c - x\<bar> < \<bar>best - x\<bar> then c else best) t rest))"

section \<open>The render pass of the overlay chart (SentimentChart.tsx)\<close>

text \<open>
  \<^verbatim>\<open>interface SentimentData { name: string; values: [string, number][] }\<close>,
  \<^verbatim>\<open>interface FormattedSeries { name: string; values: FormattedDataPoint[] }\<close> and
  \<^verbatim>\<open>interface DateRange { start: Date; end: Date }\<close>. The points of a formatted series
  are \<open>FormattedDataPoint\<close>s; straight after decimation they are array slots.
\<close>

record SentimentData =
  name :: string
  "values" :: "(string \<times> real) list"

record 'p FormattedSeries =
  name :: string
  "values" :: "'p list"

record DateRange =
  start :: int
  "end" :: int

text \<open>
  The first statement of \<open>renderChart\<close> that touches the data (\<open>formattedData\<close>):
  keep the series whose entry of \<open>visibleLines\<close> is truthy, parse each timestamp with
  \<open>parseTime\<close> (d3's \<open>timeParse\<close>, a parameter here: \<open>None\<close> is its \<open>null\<close>), keep
  the points with a date inside the range, bounds included, and sort them by time. No
  \<open>null\<close> date reaches the comparator of the sort, which then compares \<open>getTime()\<close>;
  the sort is stable.
\<close>

definition inRange :: "DateRange \<Rightarrow> FormattedDataPoint \<Rightarrow> bool" where
  "inRange dateRange point =
     (case date point of
        None \<Rightarrow> False
      | Some t \<Rightarrow> t \<ge> start dateRange \<and> t \<le> end dateRange)"

definition dateKey :: "FormattedDataPoint \<Rightarrow> int" where
  "dateKey point = (case date point of None \<Rightarrow> 0 | Some t \<Rightarrow> t)"

definition formatSeries ::
  "(string \<Rightarrow> int option) \<Rightarrow> DateRange \<Rightarrow> SentimentData \<Rightarrow> FormattedDataPoint FormattedSeries" where
  "formatSeries parseTime dateRange d =
     \<lparr>name = SentimentData.name d,
      values = sort_key dateKey
                 (filter (inRange dateRange)
                    (map (\<lambda>v. \<lparr>date = parseTime (fst v), value = snd v\<rparr>) (SentimentData.values d)))\<rparr>"

definition formatData ::
  "(string \<Rightarrow> int option) \<Rightarrow> SentimentData list \<Rightarrow> (string \<rightharpoonup> bool) \<Rightarrow> DateRange
     \<Rightarrow> FormattedDataPoint FormattedSeries list" where
  "formatData parseTime sentimentData visibleLines dateRange =
     map (formatSeries parseTime dateRange)
       (filter (\<lambda>d. visibleLines (SentimentData.name d) = Some True) sentimentData)"

text \<open>
  \<^verbatim>\<open>formattedData.map(series => ({name, values: decimateData(series.values, maxPointsPerLine)}))\<close>;
  an exception of one call ends the whole pass.
\<close>

fun decimateAll ::
  "int \<Rightarrow> FormattedDataPoint FormattedSeries list
     \<Rightarrow> error + FormattedDataPoint option FormattedSeries list" where
  "decimateAll maxPointsPerLine [] = Inr []"
| "decimateAll maxPointsPerLine (series # rest) =
     (case decimateData (values series) maxPointsPerLine of
        Inl e \<Rightarrow> Inl e
      | Inr decimated \<Rightarrow>
          (case decimateAll maxPointsPerLine rest of
             Inl e \<Rightarrow> Inl e
           | Inr others \<Rightarrow> Inr (\<lparr>name = name series, values = decimated\<rparr> # others)))"

text \<open>
  The code after the empty-state branch reads \<open>.value\<close> of every point (first in
  \<open>d3.max\<close>): an \<open>undefined\<close> slot throws there.
\<close>

fun definedPoints :: "'a option list \<Rightarrow> error + 'a list" where
  "definedPoints [] = Inr []"
| "definedPoints (None # rest) = Inl TypeError"
| "definedPoints (Some p # rest) =
     (case definedPoints rest of Inl e \<Rightarrow> Inl e | Inr ps \<Rightarrow> Inr (p # ps))"

fun definedSeries ::
  "'a option FormattedSeries list \<Rightarrow> error + 'a FormattedSeries list" where
  "definedSeries [] = Inr []"
| "definedSeries (series # rest) =
     (case definedPoints (values series) of
        Inl e \<Rightarrow> Inl e
      | Inr ps \<Rightarrow>
          (case definedSeries rest of
             Inl e \<Rightarrow> Inl e
           | Inr others \<Rightarrow> Inr (\<lparr>name = name series, values = ps\<rparr> # others)))"

text \<open>
  What a pass of \<open>renderChart\<close> leaves in the container: nothing (an early return),
  the text "No data points in the selected date range", or one line per series.
\<close>

datatype chart =
    NotDrawn
  | Placeholder
  | Lines "FormattedDataPoint FormattedSeries list"

text \<open>
  \<open>renderChart\<close>, for a mounted container of width \<open>clientWidth\<close>: the guards
  \<^verbatim>\<open>if (!dateRange) return\<close> and \<^verbatim>\<open>if (width <= 0) return\<close> (the margins are 50 and 80),
  the formatting, the decimation to \<^verbatim>\<open>Math.max(100, Math.floor(width / 3))\<close> points, the
  empty-state branch and the drawing.
\<close>

definition renderChart ::
  "(string \<Rightarrow> int option) \<Rightarrow> SentimentData list \<Rightarrow> (string \<rightharpoonup> bool) \<Rightarrow> DateRange option \<Rightarrow> int
     \<Rightarrow> error + chart" where
  "renderChart parseTime sentimentData visibleLines dateRange clientWidth =
     (case dateRange of
        None \<Rightarrow> Inr NotDrawn
      | Some activeRange \<Rightarrow>
          (let width = clientWidth - 50 - 80 in
           if width \<le> 0 then Inr NotDrawn
           else
             (let maxPointsPerLine = max 100 (width div 3) in
              case decimateAll maxPointsPerLine (formatData parseTime sentimentData visibleLines activeRange) of
                Inl e \<Rightarrow> Inl e
              | Inr formattedData \<Rightarrow>
                  if length formattedData = 0 \<or> list_all (\<lambda>d. length (values d) = 0) formattedData
                  then Inr Placeholder
                  else
                    (case definedSeries formattedData of
                       Inl e \<Rightarrow> Inl e
                     | Inr series \<Rightarrow> Inr (Lines series)))))"

text \<open>The number of points a pass draws.\<close>

fun pointCount :: "chart \<Rightarrow> nat" where
  "pointCount NotDrawn = 0"
| "pointCount Placeholder = 0"
| "pointCount (Lines series) = sum_list (map (\<lambda>d. length (values d)) series)"

section \<open>The tooltip of the mousemove handler\<close>

text \<open>
  \<open>dateValues\<close>, a \<^verbatim>\<open>Map<number, Map<string, number>>\<close> filled by the two nested
  \<open>forEach\<close> loops over the drawn series; a later \<open>set\<close> for the same timestamp and
  name replaces the earlier one. In SentimentChart.tsx a point without a date is skipped.
\<close>

definition addPoint ::
  "string \<Rightarrow> (int \<rightharpoonup> (string \<rightharpoonup> real)) \<Rightarrow> FormattedDataPoint \<Rightarrow> (int \<rightharpoonup> (string \<rightharpoonup> real))" where
  "addPoint seriesName dateValues point =
     (case date point of
        None \<Rightarrow> dateValues
      | Some timestamp \<Rightarrow>
          dateValues(timestamp \<mapsto>
            (case dateValues timestamp of None \<Rightarrow> Map.empty | Some seriesValues \<Rightarrow> seriesValues)
              (seriesName \<mapsto> value point)))"

definition buildDateValues ::
  "FormattedDataPoint FormattedSeries list \<Rightarrow> (int \<rightharpoonup> (string \<rightharpoonup> real))" where
  "buildDateValues formattedData =
     foldl (\<lambda>dateValues series. foldl (addPoint (name series)) dateValues (values series))
       Map.empty formattedData"

text \<open>
  \<^verbatim>\<open>dateValues.get(selectedTimestamp)?.get(series.name)\<close>: \<open>None\<close> is \<open>undefined\<close>.
\<close>

definition seriesValueAt ::
  "(int \<rightharpoonup> (string \<rightharpoonup> real)) \<Rightarrow> int \<Rightarrow> string \<Rightarrow> real option" where
  "seriesValueAt dateValues selectedTimestamp seriesName =
     (case dateValues selectedTimestamp of
        None \<Rightarrow> None
      | Some seriesValues \<Rightarrow> seriesValues seriesName)"

text \<open>
  One row of the tooltip per drawn series: the name and what is shown for it, a number or
  the text "N/A".
\<close>

datatype shown = Number real | NotAvailable

text \<open>
  SentimentChart.tsx: \<^verbatim>\<open>const value = seriesValues?.get(series.name) ?? "N/A"\<close>, shown as
  \<^verbatim>\<open>typeof value === 'number' ? value.toFixed(2) : value\<close>.
\<close>

definition tooltipRows ::
  "FormattedDataPoint FormattedSeries list \<Rightarrow> int \<Rightarrow> (string \<times> shown) list" where
  "tooltipRows formattedData selectedTimestamp =
     map (\<lambda>series.
            (name series,
             (case seriesValueAt (buildDateValues formattedData) selectedTimestamp (name series) of
                None \<Rightarrow> NotAvailable
              | Some v \<Rightarrow> Number v)))
         formattedData"

text \<open>
  SentimentChart_v2.tsx: \<^verbatim>\<open>const value = seriesValues?.get(series.name) ?? 0\<close>, shown as it
  is.
\<close>

definition tooltipRows_v2 ::
  "FormattedDataPoint FormattedSeries list \<Rightarrow> int \<Rightarrow> (string \<times> shown) list" where
  "tooltipRows_v2 decimatedData selectedTimestamp =
     map (\<lambda>series.
            (name series,
             Number (case seriesValueAt (buildDateValues decimatedData) selectedTimestamp (name series) of
                       None \<Rightarrow> 0
                     | Some v \<Rightarrow> v)))
         decimatedData"

section \<open>The end handler of the brush\<close>


section \<open>Properties of decimateData\<close>

subsection \<open>The scan of one bucket\<close>

lemma at_index_Some: "0 \<le> k \<Longrightarrow> k < int (length xs) \<Longrightarrow> at_index xs k = Some (xs ! nat k)"
  by (simp add: at_index_def)

lemma bucketScan_inv:
  "0 \<le> j \<Longrightarrow> e \<le> int (length data) \<Longrightarrow>
   \<exists>p. bucketScan data j e mp mv = Inr p \<and>
     ((p = mp \<and> (\<forall>k. j \<le> k \<and> k < e \<longrightarrow> value (data ! nat k) \<le> mv))
      \<or> (\<exists>k. j \<le> k \<and> k < e \<and> p = data ! nat k \<and> mv < value p
            \<and> (\<forall>k'. j \<le> k' \<and> k' < e \<longrightarrow> value (data ! nat k') \<le> value p)
            \<and> (\<forall>k'. j \<le> k' \<and> k' < k \<longrightarrow> value (data ! nat k') < value p)))"
proof (induction data j e mp mv rule: bucketScan.induct)
  case (1 data j e mp mv)
  show ?case
  proof (cases "j < e")
    case False
    then show ?thesis by (simp)
  next
    case True
    let ?p = "data ! nat j"
    have at: "at_index data j = Some ?p"
      using True 1(3,4) by (simp add: at_index_Some)
    have j1: "0 \<le> j + 1" using 1(3) by simp
    show ?thesis
    proof (cases "value ?p > mv")
      case gt: True
      from 1(1)[OF True at gt j1 1(4)]
      obtain p where r: "bucketScan data (j + 1) e ?p (value ?p) = Inr p"
        and d: "(p = ?p \<and> (\<forall>k. j + 1 \<le> k \<and> k < e \<longrightarrow> value (data ! nat k) \<le> value ?p))
          \<or> (\<exists>k. j + 1 \<le> k \<and> k < e \<and> p = data ! nat k \<and> value ?p < value p
            \<and> (\<forall>k'. j + 1 \<le> k' \<and> k' < e \<longrightarrow> value (data ! nat k') \<le> value p)
            \<and> (\<forall>k'. j + 1 \<le> k' \<and> k' < k \<longrightarrow> value (data ! nat k') < value p))"
        by blast
      have eq: "bucketScan data j e mp mv = Inr p"
        using True at gt r by (subst bucketScan.simps) simp
      from d show ?thesis
      proof
        assume a: "p = ?p \<and> (\<forall>k. j + 1 \<le> k \<and> k < e \<longrightarrow> value (data ! nat k) \<le> value ?p)"
        have all: "\<forall>k'. j \<le> k' \<and> k' < e \<longrightarrow> value (data ! nat k') \<le> value p"
        proof (intro allI impI)
          fix k' assume "j \<le> k' \<and> k' < e"
          then consider "k' = j" | "j + 1 \<le> k' \<and> k' < e" by linarith
          then show "value (data ! nat k') \<le> value p"
            using a by cases auto
        qed
        have "j \<le> j \<and> j < e \<and> p = data ! nat j \<and> mv < value p
            \<and> (\<forall>k'. j \<le> k' \<and> k' < e \<longrightarrow> value (data ! nat k') \<le> value p)
            \<and> (\<forall>k'. j \<le> k' \<and> k' < j \<longrightarrow> value (data ! nat k') < value p)"
          using a gt True all by auto
        then show ?thesis using eq by blast
      next
        assume "\<exists>k. j + 1 \<le> k \<and> k < e \<and> p = data ! nat k \<and> value ?p < value p
            \<and> (\<forall>k'. j + 1 \<le> k' \<and> k' < e \<longrightarrow> value (data ! nat k') \<le> value p)
            \<and> (\<forall>k'. j + 1 \<le> k' \<and> k' < k \<longrightarrow> value (data ! nat k') < value p)"
        then obtain k where k: "j + 1 \<le> k" "k < e" "p = data ! nat k" "value ?p < value p"
            "\<forall>k'. j + 1 \<le> k' \<and> k' < e \<longrightarrow> value (data ! nat k') \<le> value p"
            "\<forall>k'. j + 1 \<le> k' \<and> k' < k \<longrightarrow> value (data ! nat k') < value p"
          by blast
        have all: "\<forall>k'. j \<le> k' \<and> k' < e \<longrightarrow> value (data ! nat k') \<le> value p"
        proof (intro allI impI)
          fix k' assume "j \<le> k' \<and> k' < e"
          then consider "k' = j" | "j + 1 \<le> k' \<and> k' < e" by linarith
          then show "value (data ! nat k') \<le> value p"
            using k by cases auto
        qed
        have less: "\<forall>k'. j \<le> k' \<and> k' < k \<longrightarrow> value (data ! nat k') < value p"
        proof (intro allI impI)
          fix k' assume "j \<le> k' \<and> k' < k"
          then consider "k' = j" | "j + 1 \<le> k' \<and> k' < k" by linarith
          then show "value (data ! nat k') < value p"
            using k by cases auto
        qed
        have "j \<le> k \<and> k < e \<and> p = data ! nat k \<and> mv < value p" using k gt by auto
        then show ?thesis using eq all less by blast
      qed
    next
      case le: False
      from 1(2)[OF True at le j1 1(4)]
      obtain p where r: "bucketScan data (j + 1) e mp mv = Inr p"
        and d: "(p = mp \<and> (\<forall>k. j + 1 \<le> k \<and> k < e \<longrightarrow> value (data ! nat k) \<le> mv))
          \<or> (\<exists>k. j + 1 \<le> k \<and> k < e \<and> p = data ! nat k \<and> mv < value p
            \<and> (\<forall>k'. j + 1 \<le> k' \<and> k' < e \<longrightarrow> value (data ! nat k') \<le> value p)
            \<and> (\<forall>k'. j + 1 \<le> k' \<and> k' < k \<longrightarrow> value (data ! nat k') < value p))"
        by blast
      have eq: "bucketScan data j e mp mv = Inr p"
        using True at le r by (subst bucketScan.simps) simp
      from d show ?thesis
      proof
        assume a: "p = mp \<and> (\<forall>k. j + 1 \<le> k \<and> k < e \<longrightarrow> value (data ! nat k) \<le> mv)"
        have "\<forall>k. j \<le> k \<and> k < e \<longrightarrow> value (data ! nat k) \<le> mv"
        proof (intro allI impI)
          fix k' assume "j \<le> k' \<and> k' < e"
          then consider "k' = j" | "j + 1 \<le> k' \<and> k' < e" by linarith
          then show "value (data ! nat k') \<le> mv"
            using a le by cases auto
        qed
        then show ?thesis using eq a by blast
      next
        assume "\<exists>k. j + 1 \<le> k \<and> k < e \<and> p = data ! nat k \<and> mv < value p
            \<and> (\<forall>k'. j + 1 \<le> k' \<and> k' < e \<longrightarrow> value (data ! nat k') \<le> value p)
            \<and> (\<forall>k'. j + 1 \<le> k' \<and> k' < k \<longrightarrow> value (data ! nat k') < value p)"
        then obtain k where k: "j + 1 \<le> k" "k < e" "p = data ! nat k" "mv < value p"
            "\<forall>k'. j + 1 \<le> k' \<and> k' < e \<longrightarrow> value (data ! nat k') \<le> value p"
            "\<forall>k'. j + 1 \<le> k' \<and> k' < k \<longrightarrow> value (data ! nat k') < value p"
          by blast
        have all: "\<forall>k'. j \<le> k' \<and> k' < e \<longrightarrow> value (data ! nat k') \<le> value p"
        proof (intro allI impI)
          fix k' assume "j \<le> k' \<and> k' < e"
          then consider "k' = j" | "j + 1 \<le> k' \<and> k' < e" by linarith
          then show "value (data ! nat k') \<le> value p"
            using k le by cases auto
        qed
        have less: "\<forall>k'. j \<le> k' \<and> k' < k \<longrightarrow> value (data ! nat k') < value p"
        proof (intro allI impI)
          fix k' assume "j \<le> k' \<and> k' < k"
          then consider "k' = j" | "j + 1 \<le> k' \<and> k' < k" by linarith
          then show "value (data ! nat k') < value p"
            using k le by cases auto
        qed
        have "j \<le> k \<and> k < e \<and> p = data ! nat k \<and> mv < value p" using k by auto
        then show ?thesis using eq all less by blast
      qed
    qed
  qed
qed


lemma bucketMax_firstMax:
  assumes "0 \<le> bs" "bs < e" "e \<le> int (length data)"
  shows "\<exists>k. firstMaxIn data bs e k \<and> bucketMax data bs e = Inr (data ! nat k)"
proof -
  let ?p0 = "data ! nat bs"
  have at: "at_index data bs = Some ?p0" using assms by (simp add: at_index_Some)
  from bucketScan_inv[OF assms(1) assms(3), of ?p0 "value ?p0"]
  obtain p where r: "bucketScan data bs e ?p0 (value ?p0) = Inr p"
    and d: "(p = ?p0 \<and> (\<forall>k. bs \<le> k \<and> k < e \<longrightarrow> value (data ! nat k) \<le> value ?p0))
      \<or> (\<exists>k. bs \<le> k \<and> k < e \<and> p = data ! nat k \<and> value ?p0 < value p
            \<and> (\<forall>k'. bs \<le> k' \<and> k' < e \<longrightarrow> value (data ! nat k') \<le> value p)
            \<and> (\<forall>k'. bs \<le> k' \<and> k' < k \<longrightarrow> value (data ! nat k') < value p))"
    by blast
  have eq: "bucketMax data bs e = Inr p" using at r by (simp add: bucketMax_def)
  from d show ?thesis
  proof
    assume "p = ?p0 \<and> (\<forall>k. bs \<le> k \<and> k < e \<longrightarrow> value (data ! nat k) \<le> value ?p0)"
    then have "firstMaxIn data bs e bs \<and> p = data ! nat bs"
      using assms by (auto simp: firstMaxIn_def)
    then show ?thesis using eq by blast
  next
    assume "\<exists>k. bs \<le> k \<and> k < e \<and> p = data ! nat k \<and> value ?p0 < value p
            \<and> (\<forall>k'. bs \<le> k' \<and> k' < e \<longrightarrow> value (data ! nat k') \<le> value p)
            \<and> (\<forall>k'. bs \<le> k' \<and> k' < k \<longrightarrow> value (data ! nat k') < value p)"
    then obtain k where "bs \<le> k" "k < e" "p = data ! nat k"
       "\<forall>k'. bs \<le> k' \<and> k' < e \<longrightarrow> value (data ! nat k') \<le> value p"
       "\<forall>k'. bs \<le> k' \<and> k' < k \<longrightarrow> value (data ! nat k') < value p" by blast
    then have "firstMaxIn data bs e k \<and> p = data ! nat k"
      by (auto simp: firstMaxIn_def)
    then show ?thesis using eq by blast
  qed
qed

subsection \<open>Bucket bounds\<close>

lemma int_div_less_bound:
  fixes a m n :: int
  assumes "0 < m" "a < n * m"
  shows "a div m < n"
proof (rule ccontr)
  assume "\<not> a div m < n"
  then have "n * m \<le> (a div m) * m" using assms(1) by (intro mult_right_mono) auto
  moreover have "(a div m) * m \<le> a"
    using pos_mod_sign[OF assms(1), of a] div_mult_mod_eq[of a m] by linarith
  ultimately show False using assms(2) by linarith
qed

lemma int_div_less_iff:
  fixes a m c :: int
  assumes "0 < m"
  shows "a div m < c \<longleftrightarrow> a < c * m"
proof
  assume "a < c * m" then show "a div m < c" using assms by (intro int_div_less_bound) auto
next
  assume l: "a div m < c"
  have "a = (a div m) * m + a mod m" by simp
  also have "\<dots> < (a div m) * m + m" using pos_mod_bound[OF assms, of a] by linarith
  also have "\<dots> = (a div m + 1) * m" by (simp add: algebra_simps)
  also have "\<dots> \<le> c * m" using l assms by (intro mult_right_mono) auto
  finally show "a < c * m" .
qed

lemma int_le_div_iff:
  fixes a m c :: int
  assumes "0 < m"
  shows "c \<le> a div m \<longleftrightarrow> c * m \<le> a"
  using int_div_less_iff[OF assms, of a c] by linarith

lemma bucketStart_ge1:
  assumes "3 \<le> m" "m < n" "1 \<le> i"
  shows "1 \<le> bucketStart n m i"
proof -
  have "n \<le> i * n" using assms by (simp add: mult_le_cancel_right1)
  then have "m \<le> i * n" using assms by linarith
  then have "0 < (i * n) div m" using assms by (simp add: pos_imp_zdiv_pos_iff)
  then show ?thesis by (simp add: bucketStart_def)
qed

lemma bucketEnd_le:
  assumes "3 \<le> m" "m < n" "i \<le> m - 2"
  shows "bucketEnd n m i \<le> n - 1"
proof -
  have "(i + 1) * n \<le> (m - 1) * n" using assms by (intro mult_right_mono) auto
  also have "\<dots> < n * m" using assms by (simp add: algebra_simps)
  finally have "((i + 1) * n) div m < n" using assms
    by (intro int_div_less_bound) auto
  then show ?thesis by (simp add: bucketEnd_def)
qed

lemma bucket_nonempty:
  assumes "3 \<le> m" "m < n"
  shows "bucketStart n m i < bucketEnd n m i"
proof -
  have "(i * n) div m + 1 = (i * n + m) div m" using assms by simp
  also have "\<dots> \<le> (i * n + n) div m" using assms by (intro zdiv_mono1) auto
  finally show ?thesis by (simp add: bucketStart_def bucketEnd_def algebra_simps)
qed

lemma bucketEnd_eq_next: "bucketEnd n m i = bucketStart n m (i + 1)"
  by (simp add: bucketStart_def bucketEnd_def)


lemma bucket_size:
  assumes "0 < m"
  shows "n div m \<le> bucketEnd n m i - bucketStart n m i"
    and "bucketEnd n m i - bucketStart n m i \<le> n div m + 1"
proof -
  have e: "(i + 1) * n = i * n + n" by (simp add: algebra_simps)
  have d: "(i * n + n) div m = (i * n) div m + n div m + ((i * n) mod m + n mod m) div m"
    using div_add1_eq[of "i * n" n m] by simp
  have "0 \<le> (i * n) mod m + n mod m" "(i * n) mod m + n mod m < 2 * m"
    using assms pos_mod_sign[of m "i * n"] pos_mod_sign[of m n]
          pos_mod_bound[of m "i * n"] pos_mod_bound[of m n] by linarith+
  then have "0 \<le> ((i * n) mod m + n mod m) div m" "((i * n) mod m + n mod m) div m \<le> 1"
    using assms int_div_less_bound[of m "(i * n) mod m + n mod m" 2]
    by (simp_all add: pos_imp_zdiv_nonneg_iff)
  then show "n div m \<le> bucketEnd n m i - bucketStart n m i"
    and "bucketEnd n m i - bucketStart n m i \<le> n div m + 1"
    using d e by (simp_all add: bucketStart_def bucketEnd_def)
qed

lemma in_bucket_iff:
  assumes "0 < m" "0 < n"
  shows "bucketStart n m i \<le> k \<and> k < bucketEnd n m i \<longleftrightarrow> i = ((k + 1) * m - 1) div n"
proof -
  let ?X = "(k + 1) * m - 1"
  have "bucketStart n m i \<le> k \<longleftrightarrow> (i * n) div m < k + 1" by (simp add: bucketStart_def)
  also have "\<dots> \<longleftrightarrow> i * n < (k + 1) * m" by (rule int_div_less_iff[OF assms(1)])
  also have "\<dots> \<longleftrightarrow> i * n \<le> ?X" by linarith
  also have "\<dots> \<longleftrightarrow> i \<le> ?X div n" by (rule int_le_div_iff[OF assms(2), symmetric])
  finally have a: "bucketStart n m i \<le> k \<longleftrightarrow> i \<le> ?X div n" .
  have "k < bucketEnd n m i \<longleftrightarrow> k + 1 \<le> ((i + 1) * n) div m" unfolding bucketEnd_def by linarith
  also have "\<dots> \<longleftrightarrow> (k + 1) * m \<le> (i + 1) * n" by (rule int_le_div_iff[OF assms(1)])
  also have "\<dots> \<longleftrightarrow> ?X < (i + 1) * n" by linarith
  also have "\<dots> \<longleftrightarrow> ?X div n < i + 1" by (rule int_div_less_iff[OF assms(2), symmetric])
  finally have b: "k < bucketEnd n m i \<longleftrightarrow> ?X div n \<le> i" by linarith
  show ?thesis using a b by linarith
qed

lemma bucket_cover:
  assumes "3 \<le> m" "m < n"
  shows "(\<exists>!i. 1 \<le> i \<and> i \<le> m - 2 \<and> bucketStart n m i \<le> k \<and> k < bucketEnd n m i)
         \<longleftrightarrow> n div m \<le> k \<and> k < ((m - 1) * n) div m"
proof -
  let ?c = "((k + 1) * m - 1) div n"
  have m0: "0 < m" and n0: "0 < n" using assms by auto
  have iff: "bucketStart n m i \<le> k \<and> k < bucketEnd n m i \<longleftrightarrow> i = ?c" for i
    by (rule in_bucket_iff[OF m0 n0])
  have "(\<exists>!i. 1 \<le> i \<and> i \<le> m - 2 \<and> bucketStart n m i \<le> k \<and> k < bucketEnd n m i)
        \<longleftrightarrow> (\<exists>!i. 1 \<le> i \<and> i \<le> m - 2 \<and> i = ?c)"
    using iff by simp
  also have "\<dots> \<longleftrightarrow> 1 \<le> ?c \<and> ?c \<le> m - 2" by auto
  also have "\<dots> \<longleftrightarrow> bucketStart n m 1 \<le> k \<and> k < bucketEnd n m (m - 2)"
  proof -
    have "bucketStart n m 1 \<le> k \<longleftrightarrow> 1 \<le> ?c"
    proof -
      have "bucketStart n m 1 \<le> k \<longleftrightarrow> (1 * n) div m < k + 1" by (simp add: bucketStart_def)
      also have "\<dots> \<longleftrightarrow> 1 * n < (k + 1) * m" by (rule int_div_less_iff[OF m0])
      also have "\<dots> \<longleftrightarrow> 1 * n \<le> (k + 1) * m - 1" by linarith
      also have "\<dots> \<longleftrightarrow> 1 \<le> ?c" by (rule int_le_div_iff[OF n0, symmetric])
      finally show ?thesis .
    qed
    moreover have "k < bucketEnd n m (m - 2) \<longleftrightarrow> ?c \<le> m - 2"
    proof -
      have "k < bucketEnd n m (m - 2) \<longleftrightarrow> k < ((m - 1) * n) div m" by (simp add: bucketEnd_def)
      also have "\<dots> \<longleftrightarrow> k + 1 \<le> ((m - 1) * n) div m" by linarith
      also have "\<dots> \<longleftrightarrow> (k + 1) * m \<le> (m - 1) * n" by (rule int_le_div_iff[OF m0])
      also have "\<dots> \<longleftrightarrow> (k + 1) * m - 1 < (m - 1) * n" by linarith
      also have "\<dots> \<longleftrightarrow> ?c < m - 1" by (rule int_div_less_iff[OF n0, symmetric])
      finally show ?thesis by linarith
    qed
    ultimately show ?thesis by simp
  qed
  also have "\<dots> \<longleftrightarrow> n div m \<le> k \<and> k < ((m - 1) * n) div m"
    by (simp add: bucketStart_def bucketEnd_def)
  finally show ?thesis .
qed

subsection \<open>The shape of the result\<close>

lemma decimateLoop_buckets:
  "3 \<le> m \<Longrightarrow> m < int (length data) \<Longrightarrow> 1 \<le> i \<Longrightarrow> i \<le> m - 1 \<Longrightarrow>
   \<exists>ks. length ks = nat (m - 1 - i)
     \<and> (\<forall>t < length ks. firstMaxIn data (bucketStart (int (length data)) m (i + int t))
                                        (bucketEnd (int (length data)) m (i + int t)) (ks ! t))
     \<and> decimateLoop data m i acc = Inr (acc @ map (\<lambda>k. Some (data ! nat k)) ks)"
proof (induction data m i acc rule: decimateLoop.induct)
  case (1 data m i acc)
  let ?n = "int (length data)"
  show ?case
  proof (cases "i < m - 1")
    case False
    then have "decimateLoop data m i acc = Inr acc" by (subst decimateLoop.simps) simp
    moreover have "nat (m - 1 - i) = 0" using False by simp
    ultimately show ?thesis by simp
  next
    case True
    have b: "0 \<le> bucketStart ?n m i" "bucketStart ?n m i < bucketEnd ?n m i" "bucketEnd ?n m i \<le> ?n"
      using bucketStart_ge1[of m ?n i] bucket_nonempty[of m ?n i] bucketEnd_le[of m ?n i] 1(2,3,4) True
      by linarith+
    from bucketMax_firstMax[OF b]
    obtain k0 where k0: "firstMaxIn data (bucketStart ?n m i) (bucketEnd ?n m i) k0"
      and bm: "bucketMax data (bucketStart ?n m i) (bucketEnd ?n m i) = Inr (data ! nat k0)"
      by blast
    have "1 \<le> i + 1" "i + 1 \<le> m - 1" using 1(4) True by auto
    from 1(1)[OF True bm 1(2) 1(3) this]
    obtain ks where ks: "length ks = nat (m - 1 - (i + 1))"
      "\<forall>t < length ks. firstMaxIn data (bucketStart ?n m (i + 1 + int t))
                                        (bucketEnd ?n m (i + 1 + int t)) (ks ! t)"
      "decimateLoop data m (i + 1) (acc @ [Some (data ! nat k0)])
         = Inr ((acc @ [Some (data ! nat k0)]) @ map (\<lambda>k. Some (data ! nat k)) ks)"
      by blast
    have eq: "decimateLoop data m i acc = Inr (acc @ map (\<lambda>k. Some (data ! nat k)) (k0 # ks))"
      using True bm ks(3) by (subst decimateLoop.simps) simp
    have len: "length (k0 # ks) = nat (m - 1 - i)" using ks(1) True by simp
    have all: "\<forall>t < length (k0 # ks). firstMaxIn data (bucketStart ?n m (i + int t))
                                        (bucketEnd ?n m (i + int t)) ((k0 # ks) ! t)"
    proof (intro allI impI)
      fix t assume t: "t < length (k0 # ks)"
      show "firstMaxIn data (bucketStart ?n m (i + int t)) (bucketEnd ?n m (i + int t)) ((k0 # ks) ! t)"
      proof (cases t)
        case 0
        then show ?thesis using k0 by simp
      next
        case (Suc t')
        then have "t' < length ks" using t by simp
        then have "firstMaxIn data (bucketStart ?n m (i + 1 + int t'))
                                        (bucketEnd ?n m (i + 1 + int t')) (ks ! t')"
          using ks(2) by blast
        moreover have "i + 1 + int t' = i + int t" using Suc by simp
        ultimately show ?thesis using Suc by simp
      qed
    qed
    show ?thesis using eq len all by blast
  qed
qed

lemma decimateData_large:
  assumes "3 \<le> m" "m < int (length data)"
  shows "\<exists>ks. length ks = nat (m - 2)
     \<and> (\<forall>t < length ks. firstMaxIn data (bucketStart (int (length data)) m (1 + int t))
                                        (bucketEnd (int (length data)) m (1 + int t)) (ks ! t))
     \<and> decimateData data m
         = Inr (Some (data ! 0) # map (\<lambda>k. Some (data ! nat k)) ks @ [Some (data ! (length data - 1))])"
proof -
  have "(1::int) \<le> 1" "1 \<le> m - 1" using assms by auto
  from decimateLoop_buckets[OF assms this, of "[at_index data 0]"]
  obtain ks where ks: "length ks = nat (m - 1 - 1)"
    "\<forall>t < length ks. firstMaxIn data (bucketStart (int (length data)) m (1 + int t))
                                        (bucketEnd (int (length data)) m (1 + int t)) (ks ! t)"
    "decimateLoop data m 1 [at_index data 0] = Inr ([at_index data 0] @ map (\<lambda>k. Some (data ! nat k)) ks)"
    by blast
  have ne: "data \<noteq> []" using assms by auto
  have a0: "at_index data 0 = Some (data ! 0)" using ne by (simp add: at_index_def)
  have al: "at_index data (int (length data) - 1) = Some (data ! (length data - 1))"
    using ne by (simp add: at_index_def nat_diff_distrib')
  have "decimateData data m
         = Inr (Some (data ! 0) # map (\<lambda>k. Some (data ! nat k)) ks @ [Some (data ! (length data - 1))])"
    using assms ks(3) a0 al by (simp add: decimateData_def)
  moreover have "length ks = nat (m - 2)" using ks(1) by simp
  ultimately show ?thesis using ks(2) by blast
qed

lemma decimateData_small:
  assumes "m < 3" "m < int (length data)"
  shows "decimateData data m = Inr [at_index data 0, at_index data (int (length data) - 1)]"
proof -
  have "decimateLoop data m 1 [at_index data 0] = Inr [at_index data 0]"
    using assms by (subst decimateLoop.simps) simp
  then show ?thesis using assms by (simp add: decimateData_def)
qed

lemma decimateData_two_points:
  assumes "m < 3" "m < int (length data)" "data \<noteq> []"
  shows "decimateData data m = Inr [Some (data ! 0), Some (data ! (length data - 1))]"
  using decimateData_small[OF assms(1,2)] assms(3)
  by (simp add: at_index_def nat_diff_distrib')




subsection \<open>The five-point scenario\<close>

text \<open>
  C1 (as amended): for the five points with values 1, 5, 2, 9, 1 and maxPoints = 3,
  decimateData returns the first point, the last point and exactly one interior point,
  which is \<open>(t1, 5)\<close>: the single middle bucket starts at index
  \<open>floor(5 / 3) = 1\<close> and ends before index \<open>floor(10 / 3) = 3\<close>, so it spans
  the indices 1 and 2 and never sees \<open>(t3, 9)\<close>.
\<close>

theorem decimateData_five_points:
  "decimateData [\<lparr>date = Some t0, value = 1\<rparr>, \<lparr>date = Some t1, value = 5\<rparr>, \<lparr>date = Some t2, value = 2\<rparr>,
                  \<lparr>date = Some t3, value = 9\<rparr>, \<lparr>date = Some t4, value = 1\<rparr>] 3
   = Inr [Some \<lparr>date = Some t0, value = 1\<rparr>, Some \<lparr>date = Some t1, value = 5\<rparr>, Some \<lparr>date = Some t4, value = 1\<rparr>]
   \<and> bucketStart 5 3 1 = 1 \<and> bucketEnd 5 3 1 = 3"
  by (simp add: decimateData_def bucketMax_def bucketStart_def bucketEnd_def at_index_def)

text \<open>
  The scenario as the specification states it, with \<open>(t3, 9)\<close> as the interior
  point, is not what the code returns (timestamps 0 to 4).
\<close>

theorem decimateData_five_points_counterexample:
  "decimateData [\<lparr>date = Some 0, value = 1\<rparr>, \<lparr>date = Some 1, value = 5\<rparr>, \<lparr>date = Some 2, value = 2\<rparr>,
                  \<lparr>date = Some 3, value = 9\<rparr>, \<lparr>date = Some 4, value = 1\<rparr>] 3
   \<noteq> Inr [Some \<lparr>date = Some 0, value = 1\<rparr>, Some \<lparr>date = Some 3, value = 9\<rparr>, Some \<lparr>date = Some 4, value = 1\<rparr>]"
  by (simp add: decimateData_def bucketMax_def bucketStart_def bucketEnd_def at_index_def)

subsection \<open>Buckets\<close>

text \<open>
  C2 (as amended): for \<open>length data > maxPoints > 2\<close> the result is the first point,
  one point per bucket \<open>i = 1, \<dots>, maxPoints - 2\<close> in bucket order, and the last
  point; the point of bucket \<open>i\<close> is the first one of maximal value among the indices
  \<open>floor(i * n / maxPoints), \<dots>, floor((i + 1) * n / maxPoints) - 1\<close>. The buckets are
  non-empty and contiguous, each of size \<open>floor(n / maxPoints)\<close> or one more, and an
  index belongs to exactly one bucket precisely when it lies between
  \<open>floor(n / maxPoints)\<close> and \<open>floor((maxPoints - 1) * n / maxPoints) - 1\<close>. That
  range lies inside \<open>[1, n - 2]\<close> but need not fill it.
\<close>

theorem decimateData_buckets:
  assumes "2 < maxPoints" "maxPoints < int (length data)"
  shows "(\<exists>ks. length ks = nat (maxPoints - 2)
            \<and> decimateData data maxPoints
                = Inr (Some (data ! 0) # map (\<lambda>k. Some (data ! nat k)) ks
                        @ [Some (data ! (length data - 1))])
            \<and> (\<forall>t < length ks.
                  firstMaxIn data (bucketStart (int (length data)) maxPoints (1 + int t))
                                  (bucketEnd (int (length data)) maxPoints (1 + int t)) (ks ! t)))
     \<and> (\<forall>i. 1 \<le> i \<and> i \<le> maxPoints - 2 \<longrightarrow>
            bucketStart (int (length data)) maxPoints i < bucketEnd (int (length data)) maxPoints i
          \<and> bucketEnd (int (length data)) maxPoints i = bucketStart (int (length data)) maxPoints (i + 1)
          \<and> int (length data) div maxPoints
              \<le> bucketEnd (int (length data)) maxPoints i - bucketStart (int (length data)) maxPoints i
          \<and> bucketEnd (int (length data)) maxPoints i - bucketStart (int (length data)) maxPoints i
              \<le> int (length data) div maxPoints + 1)
     \<and> (\<forall>k. (\<exists>!i. 1 \<le> i \<and> i \<le> maxPoints - 2
                    \<and> bucketStart (int (length data)) maxPoints i \<le> k
                    \<and> k < bucketEnd (int (length data)) maxPoints i)
            \<longleftrightarrow> int (length data) div maxPoints \<le> k
                \<and> k < ((maxPoints - 1) * int (length data)) div maxPoints)
     \<and> 1 \<le> int (length data) div maxPoints
     \<and> ((maxPoints - 1) * int (length data)) div maxPoints \<le> int (length data) - 1"
proof -
  let ?n = "int (length data)"
  have m3: "3 \<le> maxPoints" using assms by simp
  have m0: "0 < maxPoints" using assms by simp
  from decimateData_large[OF m3 assms(2)]
  have A: "\<exists>ks. length ks = nat (maxPoints - 2)
            \<and> decimateData data maxPoints
                = Inr (Some (data ! 0) # map (\<lambda>k. Some (data ! nat k)) ks
                        @ [Some (data ! (length data - 1))])
            \<and> (\<forall>t < length ks.
                  firstMaxIn data (bucketStart ?n maxPoints (1 + int t))
                                  (bucketEnd ?n maxPoints (1 + int t)) (ks ! t))"
    by blast
  have B: "\<forall>i. 1 \<le> i \<and> i \<le> maxPoints - 2 \<longrightarrow>
            bucketStart ?n maxPoints i < bucketEnd ?n maxPoints i
          \<and> bucketEnd ?n maxPoints i = bucketStart ?n maxPoints (i + 1)
          \<and> ?n div maxPoints \<le> bucketEnd ?n maxPoints i - bucketStart ?n maxPoints i
          \<and> bucketEnd ?n maxPoints i - bucketStart ?n maxPoints i \<le> ?n div maxPoints + 1"
    using bucket_nonempty[OF m3 assms(2)] bucketEnd_eq_next bucket_size[OF m0] by blast
  have C: "\<forall>k. (\<exists>!i. 1 \<le> i \<and> i \<le> maxPoints - 2
                    \<and> bucketStart ?n maxPoints i \<le> k \<and> k < bucketEnd ?n maxPoints i)
            \<longleftrightarrow> ?n div maxPoints \<le> k \<and> k < ((maxPoints - 1) * ?n) div maxPoints"
    using bucket_cover[OF m3 assms(2)] by blast
  have D: "1 \<le> ?n div maxPoints"
    using bucketStart_ge1[OF m3 assms(2), of 1] by (simp add: bucketStart_def)
  have E: "((maxPoints - 1) * ?n) div maxPoints \<le> ?n - 1"
    using bucketEnd_le[OF m3 assms(2), of "maxPoints - 2"] by (simp add: bucketEnd_def)
  show ?thesis using A B C D E by blast
qed

theorem decimateData_buckets_witness:
  "(2::int) < 3 \<and> (3::int) < int (length [\<lparr>date = Some 0, value = 1\<rparr>, \<lparr>date = Some 1, value = 5\<rparr>,
       \<lparr>date = Some 2, value = 2\<rparr>, \<lparr>date = Some 3, value = 9\<rparr>])
   \<and> (\<exists>!i. 1 \<le> i \<and> i \<le> (3::int) - 2 \<and> bucketStart 4 3 i \<le> 1 \<and> 1 < bucketEnd 4 3 i)
   \<and> \<not> (\<exists>!i. 1 \<le> i \<and> i \<le> (3::int) - 2 \<and> bucketStart 4 3 i \<le> 2 \<and> 2 < bucketEnd 4 3 i)"
  using decimateData_buckets [of 3 "[\<lparr>date = Some 0, value = 1\<rparr>, \<lparr>date = Some 1, value = 5\<rparr>,
       \<lparr>date = Some 2, value = 2\<rparr>, \<lparr>date = Some 3, value = 9\<rparr>]"]
  by simp

text \<open>
  With seven points and maxPoints = 4 the buckets are the indices 1, 2 and 3, 4: the
  interior index 5, which holds the largest value, is in no bucket and is not selected.
\<close>

theorem decimateData_buckets_counterexample:
  "decimateData [\<lparr>date = Some 0, value = 0\<rparr>, \<lparr>date = Some 1, value = 1\<rparr>, \<lparr>date = Some 2, value = 0\<rparr>,
                 \<lparr>date = Some 3, value = 2\<rparr>, \<lparr>date = Some 4, value = 0\<rparr>, \<lparr>date = Some 5, value = 9\<rparr>,
                 \<lparr>date = Some 6, value = 0\<rparr>] 4
     = Inr [Some \<lparr>date = Some 0, value = 0\<rparr>, Some \<lparr>date = Some 1, value = 1\<rparr>,
            Some \<lparr>date = Some 3, value = 2\<rparr>, Some \<lparr>date = Some 6, value = 0\<rparr>]
   \<and> \<not> (bucketStart 7 4 1 \<le> 5 \<and> 5 < bucketEnd 7 4 1)
   \<and> \<not> (bucketStart 7 4 2 \<le> 5 \<and> 5 < bucketEnd 7 4 2)"
  by (simp add: decimateData_def bucketMax_def bucketStart_def bucketEnd_def at_index_def)

subsection \<open>First and last point, size of the result\<close>

text \<open>
  C6 (as amended): for a non-empty input the result starts with the first input point and
  ends with the last one; its length is at most maxPoints whenever \<open>maxPoints \<ge> 2\<close>;
  for \<open>maxPoints \<le> 2\<close> and a longer input it is exactly the two-point result
  (first, last); the empty input gives the empty result whenever \<open>maxPoints \<ge> 0\<close>.
\<close>

theorem decimateData_bounds:
  "(data \<noteq> [] \<longrightarrow>
      (\<exists>r. decimateData data maxPoints = Inr r \<and> r \<noteq> []
          \<and> hd r = Some (hd data) \<and> last r = Some (last data)
          \<and> (2 \<le> maxPoints \<longrightarrow> int (length r) \<le> maxPoints)
          \<and> (maxPoints \<le> 2 \<and> maxPoints < int (length data)
                \<longrightarrow> r = [Some (hd data), Some (last data)])))
   \<and> (0 \<le> maxPoints \<longrightarrow> decimateData [] maxPoints = Inr [])"
proof (intro conjI impI)
  show "decimateData [] maxPoints = Inr []" if "0 \<le> maxPoints"
    using that by (simp add: decimateData_def)
next
  assume ne: "data \<noteq> []"
  let ?n = "int (length data)"
  have h: "data ! 0 = hd data" using ne by (simp add: hd_conv_nth)
  have l: "data ! (length data - 1) = last data" using ne by (simp add: last_conv_nth)
  consider (ident) "?n \<le> maxPoints" | (large) "3 \<le> maxPoints" "maxPoints < ?n"
    | (small) "maxPoints < 3" "maxPoints < ?n" by linarith
  then show "\<exists>r. decimateData data maxPoints = Inr r \<and> r \<noteq> []
          \<and> hd r = Some (hd data) \<and> last r = Some (last data)
          \<and> (2 \<le> maxPoints \<longrightarrow> int (length r) \<le> maxPoints)
          \<and> (maxPoints \<le> 2 \<and> maxPoints < int (length data)
                \<longrightarrow> r = [Some (hd data), Some (last data)])"
  proof cases
    case ident
    then have "decimateData data maxPoints = Inr (map Some data)"
      by (simp add: decimateData_def)
    moreover have "hd (map Some data) = Some (hd data)" "last (map Some data) = Some (last data)"
      using ne by (simp_all add: hd_map last_map)
    ultimately show ?thesis using ne ident by auto
  next
    case large
    from decimateData_large[OF large]
    obtain ks where ks: "length ks = nat (maxPoints - 2)"
      "decimateData data maxPoints
         = Inr (Some (data ! 0) # map (\<lambda>k. Some (data ! nat k)) ks @ [Some (data ! (length data - 1))])"
      by blast
    let ?r = "Some (data ! 0) # map (\<lambda>k. Some (data ! nat k)) ks @ [Some (data ! (length data - 1))]"
    have "int (length ?r) = maxPoints" using ks(1) large by simp
    moreover have "hd ?r = Some (hd data)" "last ?r = Some (last data)" using h l by simp_all
    ultimately show ?thesis using ks(2) large by auto
  next
    case small
    from decimateData_two_points[OF small ne]
    have "decimateData data maxPoints = Inr [Some (hd data), Some (last data)]"
      using h l by simp
    then show ?thesis using small by auto
  qed
qed

theorem decimateData_bounds_witness:
  "[\<lparr>date = Some 0, value = 1\<rparr>, \<lparr>date = Some 1, value = 5\<rparr>, \<lparr>date = Some 2, value = 2\<rparr>] \<noteq> []
   \<and> (2::int) \<le> 2 \<and> (2::int) < int (length [\<lparr>date = Some 0, value = 1\<rparr>, \<lparr>date = Some 1, value = 5\<rparr>, \<lparr>date = Some 2, value = 2\<rparr>])
   \<and> decimateData [\<lparr>date = Some 0, value = 1\<rparr>, \<lparr>date = Some 1, value = 5\<rparr>, \<lparr>date = Some 2, value = 2\<rparr>] 2
       = Inr [Some \<lparr>date = Some 0, value = 1\<rparr>, Some \<lparr>date = Some 2, value = 2\<rparr>]
   \<and> decimateData [] 2 = Inr []"
  using decimateData_bounds [of "[\<lparr>date = Some 0, value = 1\<rparr>, \<lparr>date = Some 1, value = 5\<rparr>, \<lparr>date = Some 2, value = 2\<rparr>]" 2]
  by simp

text \<open>
  Two points with maxPoints = 1 give two points, more than maxPoints; the empty input
  with maxPoints = -1 gives two \<open>undefined\<close> slots.
\<close>

theorem decimateData_bounds_counterexample:
  "decimateData [\<lparr>date = Some 0, value = 1\<rparr>, \<lparr>date = Some 1, value = 5\<rparr>] 1
     = Inr [Some \<lparr>date = Some 0, value = 1\<rparr>, Some \<lparr>date = Some 1, value = 5\<rparr>]
   \<and> \<not> int (length [Some \<lparr>date = Some 0, value = 1\<rparr>, Some \<lparr>date = Some 1, value = 5\<rparr>]) \<le> 1
   \<and> decimateData [] (- 1) = Inr [None, None]"
  by (simp add: decimateData_def at_index_def)

subsection \<open>Identity on short inputs\<close>

text \<open>
  C7: decimateData is the identity whenever the input has at most maxPoints points:
  every slot of the result is the corresponding input point, in the same order.
\<close>

theorem decimateData_identity:
  "int (length data) \<le> maxPoints \<Longrightarrow> decimateData data maxPoints = Inr (map Some data)"
  by (simp add: decimateData_def)

theorem decimateData_identity_witness:
  "int (length [\<lparr>date = Some 0, value = 1\<rparr>, \<lparr>date = Some 1, value = 5\<rparr>]) \<le> 3
   \<and> decimateData [\<lparr>date = Some 0, value = 1\<rparr>, \<lparr>date = Some 1, value = 5\<rparr>] 3
       = Inr [Some \<lparr>date = Some 0, value = 1\<rparr>, Some \<lparr>date = Some 1, value = 5\<rparr>]"
  using decimateData_identity [of "[\<lparr>date = Some 0, value = 1\<rparr>, \<lparr>date = Some 1, value = 5\<rparr>]" 3]
  by simp

subsection \<open>Order of the result\<close>




section \<open>Properties of the nearest-timestamp search\<close>






lemma foldl_nearest:
  fixes x b :: int
  shows "foldl (\<lambda>best c. if \<bar>c - x\<bar> < \<bar>best - x\<bar> then c else best) b rest \<in> set (b # rest)
   \<and> (\<forall>c \<in> set (b # rest).
        \<bar>foldl (\<lambda>best c. if \<bar>c - x\<bar> < \<bar>best - x\<bar> then c else best) b rest - x\<bar> \<le> \<bar>c - x\<bar>)"
proof (induction rest arbitrary: b)
  case Nil
  show ?case by simp
next
  case (Cons a rest)
  let ?b' = "if \<bar>a - x\<bar> < \<bar>b - x\<bar> then a else b"
  let ?f = "\<lambda>best c. if \<bar>c - x\<bar> < \<bar>best - x\<bar> then c else best"
  have IH: "foldl ?f ?b' rest \<in> set (?b' # rest)"
      "\<forall>c \<in> set (?b' # rest). \<bar>foldl ?f ?b' rest - x\<bar> \<le> \<bar>c - x\<bar>"
    using Cons.IH[of ?b'] by blast+
  have e: "foldl ?f b (a # rest) = foldl ?f ?b' rest" by simp
  have "\<bar>foldl ?f ?b' rest - x\<bar> \<le> \<bar>?b' - x\<bar>" using IH(2) by simp
  then have "\<bar>foldl ?f ?b' rest - x\<bar> \<le> \<bar>a - x\<bar>" "\<bar>foldl ?f ?b' rest - x\<bar> \<le> \<bar>b - x\<bar>"
    by (auto split: if_splits)
  moreover have "foldl ?f ?b' rest \<in> set (b # a # rest)" using IH(1) by (auto split: if_splits)
  ultimately show ?case using IH(2) unfolding e by auto
qed

lemma linearScanNearest_minimal:
  assumes "ts \<noteq> []"
  shows "\<exists>l. linearScanNearest ts x = Some l \<and> l \<in> set ts \<and> (\<forall>c \<in> set ts. \<bar>l - x\<bar> \<le> \<bar>c - x\<bar>)"
proof -
  obtain t rest where ts: "ts = t # rest" using assms by (cases ts) auto
  show ?thesis using foldl_nearest[of x t rest] by (simp add: linearScanNearest_def ts)
qed





section \<open>Properties of the render pass\<close>

lemma decimateData_budget:
  assumes "3 \<le> m"
  shows "\<exists>r. decimateData xs m = Inr (map Some r) \<and> length r = min (length xs) (nat m)"
proof (cases "int (length xs) \<le> m")
  case True
  then have "decimateData xs m = Inr (map Some xs)" by (simp add: decimateData_def)
  moreover have "length xs = min (length xs) (nat m)" using True by simp
  ultimately show ?thesis by blast
next
  case False
  then have lt: "m < int (length xs)" by simp
  from decimateData_large[OF assms lt]
  obtain ks where ks: "length ks = nat (m - 2)"
    "decimateData xs m
       = Inr (Some (xs ! 0) # map (\<lambda>k. Some (xs ! nat k)) ks @ [Some (xs ! (length xs - 1))])"
    by blast
  let ?r = "xs ! 0 # map (\<lambda>k. xs ! nat k) ks @ [xs ! (length xs - 1)]"
  have "decimateData xs m = Inr (map Some ?r)" using ks(2) by (simp add: comp_def)
  moreover have "length ?r = min (length xs) (nat m)" using ks(1) assms lt by simp
  ultimately show ?thesis by blast
qed

lemma definedPoints_Some: "definedPoints (map Some r) = Inr r"
  by (induction r) simp_all

lemma decimateAll_lengths:
  assumes "3 \<le> m"
  shows "\<exists>ds ss. decimateAll m fs = Inr ds \<and> definedSeries ds = Inr ss
          \<and> map (\<lambda>d. length (values d)) ds = map (\<lambda>f. min (length (values f)) (nat m)) fs
          \<and> map (\<lambda>d. length (values d)) ss = map (\<lambda>f. min (length (values f)) (nat m)) fs"
proof (induction fs)
  case Nil
  show ?case by simp
next
  case (Cons f fs)
  then obtain ds ss where IH: "decimateAll m fs = Inr ds" "definedSeries ds = Inr ss"
     "map (\<lambda>d. length (values d)) ds = map (\<lambda>f. min (length (values f)) (nat m)) fs"
     "map (\<lambda>d. length (values d)) ss = map (\<lambda>f. min (length (values f)) (nat m)) fs"
    by blast
  from decimateData_budget[OF assms, of "values f"]
  obtain r where r: "decimateData (values f) m = Inr (map Some r)"
     "length r = min (length (values f)) (nat m)" by blast
  let ?d = "\<lparr>name = name f, values = map Some r\<rparr>"
  let ?s = "\<lparr>name = name f, values = r\<rparr>"
  have "decimateAll m (f # fs) = Inr (?d # ds)" using IH(1) r(1) by simp
  moreover have "definedSeries (?d # ds) = Inr (?s # ss)"
    using IH(2) by (simp add: definedPoints_Some)
  moreover have "map (\<lambda>d. length (values d)) (?d # ds) = map (\<lambda>f. min (length (values f)) (nat m)) (f # fs)"
    using IH(3) r(2) by simp
  moreover have "map (\<lambda>d. length (values d)) (?s # ss) = map (\<lambda>f. min (length (values f)) (nat m)) (f # fs)"
    using IH(4) r(2) by simp
  ultimately show ?case by blast
qed

lemma renderChart_drawn:
  assumes "130 < clientWidth"
  shows "\<exists>c. renderChart parseTime sentimentData visibleLines (Some r) clientWidth = Inr c
    \<and> (c = Placeholder \<longleftrightarrow> (\<forall>f \<in> set (formatData parseTime sentimentData visibleLines r). values f = []))
    \<and> pointCount c
        = sum_list (map (\<lambda>f. min (length (values f)) (nat (max 100 ((clientWidth - 50 - 80) div 3))))
                     (formatData parseTime sentimentData visibleLines r))"
proof -
  let ?m = "max 100 ((clientWidth - 50 - 80) div 3)"
  let ?fs = "formatData parseTime sentimentData visibleLines r"
  have m3: "3 \<le> ?m" by simp
  from decimateAll_lengths[OF m3, of ?fs]
  obtain ds ss where d: "decimateAll ?m ?fs = Inr ds" "definedSeries ds = Inr ss"
     "map (\<lambda>d. length (values d)) ds = map (\<lambda>f. min (length (values f)) (nat ?m)) ?fs"
     "map (\<lambda>d. length (values d)) ss = map (\<lambda>f. min (length (values f)) (nat ?m)) ?fs"
    by blast
  have empty_iff: "(length ds = 0 \<or> list_all (\<lambda>d. length (values d) = 0) ds)
      \<longleftrightarrow> (\<forall>f \<in> set ?fs. values f = [])"
  proof -
    have "list_all (\<lambda>d. length (values d) = 0) ds \<longleftrightarrow> (\<forall>n \<in> set (map (\<lambda>d. length (values d)) ds). n = 0)"
      by (simp add: list_all_iff)
    also have "\<dots> \<longleftrightarrow> (\<forall>n \<in> set (map (\<lambda>f. min (length (values f)) (nat ?m)) ?fs). n = 0)"
      using d(3) by simp
    also have "\<dots> \<longleftrightarrow> (\<forall>f \<in> set ?fs. min (length (values f)) (nat ?m) = 0)"
      by simp
    also have "\<dots> \<longleftrightarrow> (\<forall>f \<in> set ?fs. values f = [])"
    proof -
      have "min a (nat ?m) = 0 \<longleftrightarrow> a = 0" for a :: nat by (simp add: min_def)
      then show ?thesis by simp
    qed
    finally have a: "list_all (\<lambda>d. length (values d) = 0) ds \<longleftrightarrow> (\<forall>f \<in> set ?fs. values f = [])" .
    have "length ds = length ?fs" using d(3) by (metis length_map)
    then have "length ds = 0 \<longrightarrow> (\<forall>f \<in> set ?fs. values f = [])" by auto
    then show ?thesis using a by blast
  qed
  show ?thesis
  proof (cases "\<forall>f \<in> set ?fs. values f = []")
    case True
    then have "renderChart parseTime sentimentData visibleLines (Some r) clientWidth = Inr Placeholder"
      using assms d(1) empty_iff by (simp add: renderChart_def Let_def)
    moreover have "sum_list (map (\<lambda>f. min (length (values f)) (nat ?m)) ?fs) = 0"
      using True by simp
    ultimately show ?thesis using True by simp
  next
    case False
    then have "renderChart parseTime sentimentData visibleLines (Some r) clientWidth = Inr (Lines ss)"
      using assms d(1,2) empty_iff by (simp add: renderChart_def Let_def)
    moreover have "pointCount (Lines ss) = sum_list (map (\<lambda>f. min (length (values f)) (nat ?m)) ?fs)"
      using d(4) by simp
    ultimately show ?thesis using False by simp
  qed
qed

lemma renderChart_not_drawn:
  "clientWidth \<le> 130 \<Longrightarrow>
   renderChart parseTime sentimentData visibleLines (Some r) clientWidth = Inr NotDrawn"
  by (simp add: renderChart_def)

lemma length_filter_mono:
  "(\<And>x. x \<in> set xs \<Longrightarrow> P x \<Longrightarrow> Q x) \<Longrightarrow> length (filter P xs) \<le> length (filter Q xs)"
  by (induction xs) auto

lemma inRange_mono:
  assumes "{start r1..end r1} \<subseteq> {start r2..end r2}" "inRange r1 p"
  shows "inRange r2 p"
proof (cases "date p")
  case None
  then show ?thesis using assms(2) by (simp add: inRange_def)
next
  case (Some t)
  then have "t \<in> {start r1..end r1}" using assms(2) by (simp add: inRange_def)
  then have "t \<in> {start r2..end r2}" using assms(1) by blast
  then show ?thesis using Some by (simp add: inRange_def)
qed

lemma formatSeries_length_mono:
  assumes "{start r1..end r1} \<subseteq> {start r2..end r2}"
  shows "length (values (formatSeries parseTime r1 d)) \<le> length (values (formatSeries parseTime r2 d))"
proof -
  let ?ps = "map (\<lambda>v. \<lparr>date = parseTime (fst v), value = snd v\<rparr>) (SentimentData.values d)"
  have v: "values (formatSeries parseTime r d) = sort_key dateKey (filter (inRange r) ?ps)" for r
    by (simp add: formatSeries_def)
  have "length (filter (inRange r1) ?ps) \<le> length (filter (inRange r2) ?ps)"
    by (rule length_filter_mono) (rule inRange_mono[OF assms])
  then show ?thesis by (simp only: v length_sort)
qed

text \<open>
  C8: for two ranges with R1 inside R2 (every instant of R1 is one of R2) and the same
  series data, visibility set and width, both passes complete, and the number of points
  drawn for R1, after the inclusive range filter and the decimation, is at most the number
  drawn for R2.
\<close>

theorem renderChart_range_monotone:
  assumes "{start r1..end r1} \<subseteq> {start r2..end r2}"
  shows "\<exists>c1 c2. renderChart parseTime sentimentData visibleLines (Some r1) clientWidth = Inr c1
           \<and> renderChart parseTime sentimentData visibleLines (Some r2) clientWidth = Inr c2
           \<and> pointCount c1 \<le> pointCount c2"
proof (cases "130 < clientWidth")
  case False
  then show ?thesis using renderChart_not_drawn[of clientWidth] by simp
next
  case True
  let ?m = "nat (max 100 ((clientWidth - 50 - 80) div 3))"
  let ?vs = "filter (\<lambda>d. visibleLines (SentimentData.name d) = Some True) sentimentData"
  from renderChart_drawn[OF True, of parseTime sentimentData visibleLines r1]
  obtain c1 where c1: "renderChart parseTime sentimentData visibleLines (Some r1) clientWidth = Inr c1"
    "pointCount c1 = sum_list (map (\<lambda>f. min (length (values f)) ?m)
                     (formatData parseTime sentimentData visibleLines r1))" by blast
  from renderChart_drawn[OF True, of parseTime sentimentData visibleLines r2]
  obtain c2 where c2: "renderChart parseTime sentimentData visibleLines (Some r2) clientWidth = Inr c2"
    "pointCount c2 = sum_list (map (\<lambda>f. min (length (values f)) ?m)
                     (formatData parseTime sentimentData visibleLines r2))" by blast
  have "sum_list (map (\<lambda>d. min (length (values (formatSeries parseTime r1 d))) ?m) ?vs)
        \<le> sum_list (map (\<lambda>d. min (length (values (formatSeries parseTime r2 d))) ?m) ?vs)"
    using formatSeries_length_mono[OF assms, of parseTime]
    by (intro sum_list_mono) (simp add: min_le_iff_disj)
  then have "pointCount c1 \<le> pointCount c2"
    using c1(2) c2(2) by (simp add: formatData_def comp_def)
  then show ?thesis using c1(1) c2(1) by blast
qed

theorem renderChart_range_monotone_witness:
  "{start \<lparr>start = 4, end = 6\<rparr>..end \<lparr>start = 4, end = 6\<rparr>} \<subseteq> {start \<lparr>start = 0, end = 10\<rparr>..end \<lparr>start = 0, end = 10\<rparr>}
   \<and> (\<exists>c1 c2. renderChart (\<lambda>s. if s = ''a'' then Some 1 else Some 5)
                   [\<lparr>SentimentData.name = ''A'', SentimentData.values = [(''a'', 1), (''b'', 2)]\<rparr>] [''A'' \<mapsto> True]
                   (Some \<lparr>start = 4, end = 6\<rparr>) 730 = Inr c1
             \<and> renderChart (\<lambda>s. if s = ''a'' then Some 1 else Some 5)
                   [\<lparr>SentimentData.name = ''A'', SentimentData.values = [(''a'', 1), (''b'', 2)]\<rparr>] [''A'' \<mapsto> True]
                   (Some \<lparr>start = 0, end = 10\<rparr>) 730 = Inr c2
             \<and> pointCount c1 \<le> pointCount c2)"
  using renderChart_range_monotone [of "\<lparr>start = 4, end = 6\<rparr>" "\<lparr>start = 0, end = 10\<rparr>"
      "\<lambda>s. if s = ''a'' then Some 1 else Some 5" "[\<lparr>SentimentData.name = ''A'', SentimentData.values = [(''a'', 1), (''b'', 2)]\<rparr>]"
      "[''A'' \<mapsto> True]" 730]
  by simp

text \<open>
  C9 (as amended): in a pass whose drawable width is positive (the container is wider
  than the margins of 130 pixels), the placeholder is rendered, and no series is drawn,
  exactly when filtering by visibility and then by the active range leaves no point in any
  series; in particular when the visibility set sends every series to false, whatever the
  raw data.
\<close>

theorem renderChart_empty_state:
  assumes "130 < clientWidth"
  shows "(renderChart parseTime sentimentData visibleLines (Some r) clientWidth = Inr Placeholder
           \<longleftrightarrow> (\<forall>f \<in> set (formatData parseTime sentimentData visibleLines r). values f = []))
       \<and> ((\<forall>d \<in> set sentimentData. visibleLines (SentimentData.name d) = Some False)
            \<longrightarrow> renderChart parseTime sentimentData visibleLines (Some r) clientWidth = Inr Placeholder)"
proof -
  from renderChart_drawn[OF assms, of parseTime sentimentData visibleLines r]
  obtain c where c: "renderChart parseTime sentimentData visibleLines (Some r) clientWidth = Inr c"
    "c = Placeholder \<longleftrightarrow> (\<forall>f \<in> set (formatData parseTime sentimentData visibleLines r). values f = [])"
    by blast
  have a: "renderChart parseTime sentimentData visibleLines (Some r) clientWidth = Inr Placeholder
           \<longleftrightarrow> (\<forall>f \<in> set (formatData parseTime sentimentData visibleLines r). values f = [])"
    using c by simp
  have "formatData parseTime sentimentData visibleLines r = []"
    if "\<forall>d \<in> set sentimentData. visibleLines (SentimentData.name d) = Some False"
    using that by (simp add: formatData_def filter_empty_conv)
  then show ?thesis using a by auto
qed

theorem renderChart_empty_state_witness:
  "(130::int) < 730
   \<and> renderChart (\<lambda>s. Some 5) [\<lparr>SentimentData.name = ''A'', SentimentData.values = [(''2024-01-01T00:00:00Z'', 1)]\<rparr>]
        [''A'' \<mapsto> False] (Some \<lparr>start = 0, end = 10\<rparr>) 730 = Inr Placeholder"
  using renderChart_empty_state [of 730 "\<lambda>s. Some 5" "[\<lparr>SentimentData.name = ''A'', SentimentData.values = [(''2024-01-01T00:00:00Z'', 1)]\<rparr>]"
        "[''A'' \<mapsto> False]" "\<lparr>start = 0, end = 10\<rparr>"]
  by simp

text \<open>
  In a container of 130 pixels the drawable width is 0 and the pass returns before it
  draws anything, the placeholder included, although every series is hidden.
\<close>

theorem renderChart_empty_state_counterexample:
  "renderChart (\<lambda>s. Some 5) [\<lparr>SentimentData.name = ''A'', SentimentData.values = [(''2024-01-01T00:00:00Z'', 1)]\<rparr>]
        [''A'' \<mapsto> False] (Some \<lparr>start = 0, end = 10\<rparr>) 130 = Inr NotDrawn
   \<and> formatData (\<lambda>s. Some 5) [\<lparr>SentimentData.name = ''A'', SentimentData.values = [(''2024-01-01T00:00:00Z'', 1)]\<rparr>]
        [''A'' \<mapsto> False] \<lparr>start = 0, end = 10\<rparr> = []"
  by (simp add: renderChart_def formatData_def)

section \<open>Properties of the tooltip\<close>

lemma seriesValueAt_addPoint:
  "seriesValueAt (addPoint nm' m p) ts nm
     = (if date p = Some ts \<and> nm' = nm then Some (value p) else seriesValueAt m ts nm)"
  by (cases "date p") (auto simp: seriesValueAt_def addPoint_def split: option.splits)

lemma seriesValueAt_points:
  "seriesValueAt (foldl (addPoint nm') m ps) ts nm = None
     \<longleftrightarrow> seriesValueAt m ts nm = None \<and> (nm' = nm \<longrightarrow> (\<forall>p \<in> set ps. date p \<noteq> Some ts))"
  by (induction ps arbitrary: m) (auto simp: seriesValueAt_addPoint)

lemma seriesValueAt_series:
  "seriesValueAt (foldl (\<lambda>dateValues series. foldl (addPoint (name series)) dateValues (values series)) m fd) ts nm = None
     \<longleftrightarrow> seriesValueAt m ts nm = None
         \<and> (\<forall>s \<in> set fd. name s = nm \<longrightarrow> (\<forall>p \<in> set (values s). date p \<noteq> Some ts))"
  by (induction fd arbitrary: m) (auto simp: seriesValueAt_points)

lemma seriesValueAt_buildDateValues:
  "seriesValueAt (buildDateValues fd) ts nm = None
     \<longleftrightarrow> (\<forall>s \<in> set fd. name s = nm \<longrightarrow> (\<forall>p \<in> set (values s). date p \<noteq> Some ts))"
proof -
  have "seriesValueAt Map.empty ts nm = None" by (simp add: seriesValueAt_def)
  then show ?thesis unfolding buildDateValues_def by (simp only: seriesValueAt_series simp_thms)
qed

text \<open>
  In SentimentChart.tsx the tooltip has one row per drawn series, in order, and a row shows
  "N/A" exactly when no drawn series of that name has a point at the resolved timestamp.
\<close>

lemma tooltipRows_not_available:
  "map fst (tooltipRows formattedData selectedTimestamp) = map name formattedData
   \<and> (\<forall>i < length formattedData.
         snd (tooltipRows formattedData selectedTimestamp ! i) = NotAvailable
         \<longleftrightarrow> (\<forall>s \<in> set formattedData. name s = name (formattedData ! i)
                \<longrightarrow> (\<forall>p \<in> set (values s). date p \<noteq> Some selectedTimestamp)))"
proof -
  have "snd (tooltipRows formattedData selectedTimestamp ! i) = NotAvailable
     \<longleftrightarrow> seriesValueAt (buildDateValues formattedData) selectedTimestamp (name (formattedData ! i)) = None"
    if "i < length formattedData" for i
    using that by (simp add: tooltipRows_def split: option.splits)
  then show ?thesis
    by (simp add: seriesValueAt_buildDateValues tooltipRows_def comp_def)
qed

text \<open>
  C4: the tooltip lists a value for every drawn series, and a series with no point at the
  resolved timestamp is to be shown as "not available", not as zero. With the series A
  (one point at timestamp 1) and B (one point at timestamp 2) and the pointer resolved to
  timestamp 1, SentimentChart_v2.tsx shows 0 for B, where SentimentChart.tsx shows "N/A".
\<close>

theorem tooltipRows_v2_missing_as_zero:
  "tooltipRows_v2 [\<lparr>name = ''A'', values = [\<lparr>date = Some 1, value = 5\<rparr>]\<rparr>,
                   \<lparr>name = ''B'', values = [\<lparr>date = Some 2, value = 7\<rparr>]\<rparr>] 1
     = [(''A'', Number 5), (''B'', Number 0)]
   \<and> tooltipRows [\<lparr>name = ''A'', values = [\<lparr>date = Some 1, value = 5\<rparr>]\<rparr>,
                  \<lparr>name = ''B'', values = [\<lparr>date = Some 2, value = 7\<rparr>]\<rparr>] 1
     = [(''A'', Number 5), (''B'', NotAvailable)]"
  by (simp add: tooltipRows_v2_def tooltipRows_def buildDateValues_def addPoint_def seriesValueAt_def)


section \<open>Properties of the brush\<close>




end
